theory Spec2Isabelle
  imports Main "HOL-Library.Multiset"
begin

section \<open>Mesh layouts: nested sizes and strides\<close>

text \<open>
  The development follows \<^verbatim>\<open>torch/distributed/_mesh_layout.py\<close>. An \<^verbatim>\<open>IntTuple\<close> is a
  Python int or a tuple of \<^verbatim>\<open>IntTuple\<close>s; Python's unbounded integers are \<^typ>\<open>int\<close>.
\<close>

datatype IntTuple = Leaf int | Node "IntTuple list"

text \<open>
  Modelled from the spec: \<^verbatim>\<open>is_tuple\<close> and \<^verbatim>\<open>is_int\<close> of \<^verbatim>\<open>torch.distributed._pycute\<close>, the
  two tests on the tagged variant of leaf and node.
\<close>

fun is_tuple :: "IntTuple \<Rightarrow> bool" where
  "is_tuple (Node ts) = True"
| "is_tuple (Leaf n) = False"

fun is_int :: "IntTuple \<Rightarrow> bool" where
  "is_int (Leaf n) = True"
| "is_int (Node ts) = False"

text \<open>
  Modelled from the spec: \<^verbatim>\<open>flatten\<close> of \<^verbatim>\<open>torch.distributed._pycute\<close>, a module whose
  source is not among the sources of this development. The spec's flattened view is
  the sequence of leaves in an in-order traversal; a lone leaf is a sequence of length
  one.
\<close>

fun flatten :: "IntTuple \<Rightarrow> int list" where
  "flatten (Leaf n) = [n]"
| "flatten (Node ts) = concat (map flatten ts)"

record MeshLayout =
  shape :: IntTuple
  stride :: IntTuple

datatype error =
    ShapeMismatch       \<comment> \<open>the \<^verbatim>\<open>ValueError\<close> of \<^verbatim>\<open>__post_init__\<close>\<close>
  | InvalidWorldSize    \<comment> \<open>the spec's failure of \<^verbatim>\<open>complement\<close>\<close>
  | ZeroDivisionError   \<comment> \<open>Python's \<^verbatim>\<open>//\<close> by zero\<close>
  | IndexError          \<comment> \<open>tensor indexing out of range\<close>
  | ViewError           \<comment> \<open>the \<^verbatim>\<open>RuntimeError\<close> of an impossible \<^verbatim>\<open>view\<close>\<close>

text \<open>
  Construction runs \<^verbatim>\<open>__post_init__\<close>. Its two \<^verbatim>\<open>TypeError\<close> branches need a value that is
  neither an int nor a tuple; \<^typ>\<open>IntTuple\<close> has no such value. What is left is the
  length test, made only when both trees are tuples.
\<close>

definition new_layout :: "IntTuple \<Rightarrow> IntTuple \<Rightarrow> error + MeshLayout" where
  "new_layout sh st =
     (if is_tuple sh \<and> is_tuple st \<and> length (flatten sh) \<noteq> length (flatten st)
      then Inl ShapeMismatch
      else Inr \<lparr>shape = sh, stride = st\<rparr>)"

definition sizes :: "MeshLayout \<Rightarrow> IntTuple" where
  "sizes L = shape L"

definition strides :: "MeshLayout \<Rightarrow> IntTuple" where
  "strides L = stride L"

text \<open>Python's \<^verbatim>\<open>zip\<close> stops at the shorter sequence, as \<^const>\<open>zip\<close> does.\<close>

definition sizes_and_strides :: "MeshLayout \<Rightarrow> (int \<times> int) list" where
  "sizes_and_strides L = zip (flatten (shape L)) (flatten (stride L))"

definition numel :: "MeshLayout \<Rightarrow> int" where
  "numel L = prod_list (flatten (shape L))"

subsection \<open>Enumeration of ranks\<close>

text \<open>\<^verbatim>\<open>range(s)\<close> is empty for \<^verbatim>\<open>s <= 0\<close>.\<close>

definition range_py :: "int \<Rightarrow> int list" where
  "range_py s = map int [0..<nat s]"

text \<open>
  \<^verbatim>\<open>itertools.product(*iterables)\<close>: nested for-loops, the rightmost iterable advancing
  on every step.
\<close>

fun product_py :: "'a list list \<Rightarrow> 'a list list" where
  "product_py [] = [[]]"
| "product_py (xs # xss) = concat (map (\<lambda>x. map (\<lambda>ys. x # ys) (product_py xss)) xs)"

definition dot :: "int list \<Rightarrow> int list \<Rightarrow> int" where
  "dot coord strs = sum_list (map (\<lambda>(c, s). c * s) (zip coord strs))"

definition member_ranks :: "MeshLayout \<Rightarrow> int list" where
  "member_ranks L =
     map (\<lambda>coord. dot coord (flatten (strides L)))
         (product_py (map range_py (flatten (sizes L))))"

subsection \<open>The overlap check\<close>

text \<open>
  The loop of \<^verbatim>\<open>check_non_overlap\<close>, with its two variables \<^verbatim>\<open>previous_span\<close> and
  \<^verbatim>\<open>previous_stride\<close> passed along. \<^verbatim>\<open>sorted(..., key=lambda x: x[1])\<close> is a stable
  sort on the stride, as \<^const>\<open>sort_key\<close> is.
\<close>

fun check_loop :: "int \<Rightarrow> int \<Rightarrow> (int \<times> int) list \<Rightarrow> bool" where
  "check_loop previous_span previous_stride [] = True"
| "check_loop previous_span previous_stride ((sz, st) # rest) =
     (if sz = 1 then check_loop previous_span previous_stride rest
      else if previous_stride = st \<or> st < previous_span then False
      else check_loop (sz * st) st rest)"

definition check_non_overlap :: "MeshLayout \<Rightarrow> bool" where
  "check_non_overlap L = check_loop (- 1) (- 1) (sort_key snd (sizes_and_strides L))"

subsection \<open>The layout algebra borrowed from pycute\<close>

text \<open>
  \<^verbatim>\<open>coalesce\<close>, \<open>complement\<close> and \<open>composition\<close> of \<^verbatim>\<open>_MeshLayout\<close> call the functions of the
  same names in \<^verbatim>\<open>torch.distributed._pycute\<close> and rebuild a \<^verbatim>\<open>_MeshLayout\<close> from the
  result. The pycute module is not among the sources of this development, so the three
  functions are modelled from what the spec says about them.
\<close>

text \<open>
  Modelled from the spec: \<^verbatim>\<open>coalesce\<close> of \<^verbatim>\<open>torch.distributed._pycute\<close>. Dimensions of size
  \<open>1\<close> are dropped first. A dimension merges with its inner neighbour when the inner
  stride times the inner size equals its own stride; the merged dimension has the
  product of the sizes and the inner stride. In the example the spec and the docstring
  of \<^verbatim>\<open>_MeshLayout.coalesce\<close> share, \<open>(3,2):(2,1)\<close> becomes \<open>6:1\<close> with the inner dimension
  \<open>2:1\<close> on the right, so the walk starts at the rightmost dimension and goes outwards.
  \<open>merge_dim d ds\<close> puts the next outer dimension \<open>d\<close> in front of the dimensions \<open>ds\<close>
  coalesced so far. When no dimension is left the result is the single leaf
  \<open>numel():1\<close>.
\<close>

fun merge_dim :: "int \<times> int \<Rightarrow> (int \<times> int) list \<Rightarrow> (int \<times> int) list" where
  "merge_dim (sz, st) [] = [(sz, st)]"
| "merge_dim (sz, st) ((inner_sz, inner_st) # rest) =
     (if inner_st * inner_sz = st then (sz * inner_sz, inner_st) # rest
      else (sz, st) # (inner_sz, inner_st) # rest)"

definition coalesce_dims :: "(int \<times> int) list \<Rightarrow> (int \<times> int) list" where
  "coalesce_dims ds = foldr merge_dim (filter (\<lambda>(sz, st). sz \<noteq> 1) ds) []"

definition flat_layout :: "(int \<times> int) list \<Rightarrow> MeshLayout" where
  "flat_layout ds = \<lparr>shape = Node (map (\<lambda>d. Leaf (fst d)) ds),
                     stride = Node (map (\<lambda>d. Leaf (snd d)) ds)\<rparr>"

definition pycute_coalesce :: "MeshLayout \<Rightarrow> MeshLayout" where
  "pycute_coalesce L =
     (let ds = coalesce_dims (sizes_and_strides L)
      in if ds = [] then \<lparr>shape = Leaf (numel L), stride = Leaf 1\<rparr> else flat_layout ds)"

text \<open>
  Modelled from the spec: \<^verbatim>\<open>complement\<close> of \<^verbatim>\<open>torch.distributed._pycute\<close>. The dimensions
  are sorted by stride and walked in that order, those of size \<open>1\<close> being no-ops. The walk
  carries the boundary of the span covered so far, one address at the start. Where
  the next stride lies beyond the boundary there is a gap, which becomes a dimension of
  the complement with the boundary as its stride; its size is the stride divided by the
  boundary, the number of blocks of the covered span that fit below the stride. The
  boundary then moves to size times stride. After the last dimension one more
  dimension covers the rest, \<open>world_size\<close> divided by the last boundary. The complement
  fails when \<open>world_size\<close> is not evenly divisible by the last boundary, and when the
  layout occupies an address twice. The spec names no value for a division by zero; it
  is a failure here. The dimensions come in the order of the walk.
\<close>

fun complement_walk :: "int \<Rightarrow> (int \<times> int) list \<Rightarrow> int \<Rightarrow> error + (int \<times> int) list" where
  "complement_walk boundary [] world_size =
     (if boundary = 0 \<or> world_size mod boundary \<noteq> 0 then Inl InvalidWorldSize
      else Inr [(world_size div boundary, boundary)])"
| "complement_walk boundary ((sz, st) # rest) world_size =
     (if boundary = 0 then Inl InvalidWorldSize
      else case complement_walk (sz * st) rest world_size of
             Inl e \<Rightarrow> Inl e
           | Inr gaps \<Rightarrow> Inr (if st = boundary then gaps else (st div boundary, boundary) # gaps))"

definition kept_pairs :: "MeshLayout \<Rightarrow> (int \<times> int) list" where
  "kept_pairs L = filter (\<lambda>(sz, st). sz \<noteq> 1) (sort_key snd (sizes_and_strides L))"

definition pycute_complement :: "MeshLayout \<Rightarrow> int \<Rightarrow> error + MeshLayout" where
  "pycute_complement L world_size =
     (if \<not> distinct (member_ranks L) then Inl InvalidWorldSize
      else case complement_walk 1 (kept_pairs L) world_size of
             Inl e \<Rightarrow> Inl e
           | Inr gaps \<Rightarrow> Inr (flat_layout gaps))"

text \<open>The methods of \<^verbatim>\<open>_MeshLayout\<close>: the pycute result goes through the constructor.\<close>

definition coalesce :: "MeshLayout \<Rightarrow> error + MeshLayout" where
  "coalesce L = (let layout = pycute_coalesce L in new_layout (shape layout) (stride layout))"

definition complement :: "MeshLayout \<Rightarrow> int \<Rightarrow> error + MeshLayout" where
  "complement L world_size =
     (case pycute_complement L world_size of
        Inl e \<Rightarrow> Inl e
      | Inr layout \<Rightarrow> new_layout (shape layout) (stride layout))"

definition global_ranks :: "MeshLayout \<Rightarrow> int \<Rightarrow> error + int list list" where
  "global_ranks L world_size =
     (case complement L world_size of
        Inl e \<Rightarrow> Inl e
      | Inr C \<Rightarrow> Inr (map (\<lambda>group_offset. map (\<lambda>group_rank. group_offset + group_rank)
                                             (member_ranks L))
                        (member_ranks C)))"

text \<open>
  Modelled from the spec: \<^verbatim>\<open>composition\<close> of \<^verbatim>\<open>torch.distributed._pycute\<close>. The spec gives
  no algorithm for it, only the equation that a result has to satisfy, which is also
  the one in the docstring of \<^verbatim>\<open>_MeshLayout.composition\<close>:
  \<open>(self \<circ> other)(input) = self(other(input))\<close>. A layout is evaluated at a linear index by
  taking the element of \<^verbatim>\<open>member_ranks\<close> at that index, the index being read in row-major
  order; outside \<open>0 .. numel-1\<close> it has no value. \<open>is_composition self other R\<close> is the
  equation and nothing more: going through the coordinates of \<open>other\<close> in row-major
  order, the rank of \<open>R\<close> is \<open>self\<close> evaluated at the rank of \<open>other\<close>. The shape of \<open>R\<close> is
  left open, so a result that splits a dimension of \<open>other\<close> is a composition too.
\<close>

definition layout_at :: "MeshLayout \<Rightarrow> int \<Rightarrow> int option" where
  "layout_at L i =
     (if 0 \<le> i \<and> i < int (length (member_ranks L)) then Some (member_ranks L ! nat i)
      else None)"

definition is_composition :: "MeshLayout \<Rightarrow> MeshLayout \<Rightarrow> MeshLayout \<Rightarrow> bool" where
  "is_composition self other R \<longleftrightarrow>
     list_all2 (\<lambda>r j. layout_at self j = Some r) (member_ranks R) (member_ranks other)"

subsection \<open>The bridge to a mesh tensor\<close>

text \<open>
  A tensor is its list of dimensions and its values in row-major order. Values are
  mathematical integers. The mesh tensor enters \<^verbatim>\<open>to_remapping_tensor\<close> only through
  \<^verbatim>\<open>numel()\<close> and \<^verbatim>\<open>flatten()\<close>, so it is given as the list of its values.
\<close>

record tensor =
  dims :: "int list"
  vals :: "int list"

fun collect :: "(error + 'a) list \<Rightarrow> error + 'a list" where
  "collect [] = Inr []"
| "collect (r # rs) =
     (case r of
        Inl e \<Rightarrow> Inl e
      | Inr x \<Rightarrow> (case collect rs of Inl e \<Rightarrow> Inl e | Inr xs \<Rightarrow> Inr (x # xs)))"

text \<open>The nested function \<^verbatim>\<open>scale_stride\<close>; Python's \<^verbatim>\<open>//\<close> raises on a zero divisor.\<close>

fun scale_stride :: "int \<Rightarrow> IntTuple \<Rightarrow> error + IntTuple" where
  "scale_stride scale (Leaf s) =
     (if s < scale then Inr (Leaf s)
      else if scale = 0 then Inl ZeroDivisionError
      else Inr (Leaf (s div scale)))"
| "scale_stride scale (Node ts) =
     (case collect (map (scale_stride scale) ts) of
        Inl e \<Rightarrow> Inl e
      | Inr us \<Rightarrow> Inr (Node us))"

text \<open>
  \<^verbatim>\<open>torch.tensor(pg_ranks_by_dim).view(-1, *sizes)\<close>: the leading dimension is inferred. The
  view is refused for a negative size, and when the sizes multiply to zero or do not
  divide the number of elements.
\<close>

definition view_groups :: "int list list \<Rightarrow> int list \<Rightarrow> error + tensor" where
  "view_groups pg_ranks_by_dim szs =
     (let flat = concat pg_ranks_by_dim; p = prod_list szs
      in if list_ex (\<lambda>s. s < 0) szs \<or> p = 0 \<or> int (length flat) mod p \<noteq> 0
         then Inl ViewError
         else Inr \<lparr>dims = (int (length flat) div p) # szs, vals = flat\<rparr>)"

text \<open>
  \<^verbatim>\<open>flat[tensor]\<close>: every value of the index tensor picks an element; a negative index
  counts from the end, an index outside \<open>-n .. n-1\<close> raises.
\<close>

definition gather :: "int list \<Rightarrow> tensor \<Rightarrow> error + tensor" where
  "gather flat t =
     (let n = int (length flat)
      in if list_all (\<lambda>i. - n \<le> i \<and> i < n) (vals t)
         then Inr \<lparr>dims = dims t,
                   vals = map (\<lambda>i. flat ! nat (if i < 0 then i + n else i)) (vals t)\<rparr>
         else Inl IndexError)"

definition to_remapping_tensor :: "MeshLayout \<Rightarrow> int list \<Rightarrow> int \<Rightarrow> error + tensor" where
  "to_remapping_tensor L original_mesh_tensor world_size =
     (let n = int (length original_mesh_tensor) in
      case global_ranks L n of
        Inl e \<Rightarrow> Inl e
      | Inr pg_ranks_by_dim \<Rightarrow>
      (case view_groups pg_ranks_by_dim (flatten (sizes L)) of
        Inl e \<Rightarrow> Inl e
      | Inr t \<Rightarrow>
        if sort original_mesh_tensor = map int [0..<length original_mesh_tensor] then Inr t
        else if n \<noteq> world_size then
          (if n = 0 then Inl ZeroDivisionError
           else case scale_stride (world_size div n) (strides L) of
             Inl e \<Rightarrow> Inl e
           | Inr scaled_strides \<Rightarrow>
           (case new_layout (sizes L) scaled_strides of
             Inl e \<Rightarrow> Inl e
           | Inr scaled_layout \<Rightarrow>
           (case global_ranks scaled_layout n of
             Inl e \<Rightarrow> Inl e
           | Inr pg_ranks_scaled \<Rightarrow>
           (case view_groups pg_ranks_scaled (flatten (sizes L)) of
             Inl e \<Rightarrow> Inl e
           | Inr t' \<Rightarrow> gather original_mesh_tensor t'))))
        else gather original_mesh_tensor t))"

section \<open>What the spec says, as definitions\<close>

text \<open>
  Two trees have the same tree shape when a leaf faces a leaf and a node faces a node
  with as many children, recursively.
\<close>

fun same_tree_shape :: "IntTuple \<Rightarrow> IntTuple \<Rightarrow> bool" where
  "same_tree_shape (Leaf a) (Leaf b) = True"
| "same_tree_shape (Node ts) (Node us) = list_all2 same_tree_shape ts us"
| "same_tree_shape (Leaf a) (Node us) = False"
| "same_tree_shape (Node ts) (Leaf b) = False"

text \<open>
  Row-major order: the \<open>k\<close>-th element of the Cartesian product of the ranges has, at
  position \<open>i\<close>, the digit of \<open>k\<close> in the mixed radix given by the sizes, the leftmost
  position being the most significant. Its rank is the sum of coordinate times stride.
\<close>

definition row_major_coord :: "int list \<Rightarrow> nat \<Rightarrow> int list" where
  "row_major_coord szs k =
     map (\<lambda>i. int ((k div prod_list (map nat (drop (Suc i) szs))) mod nat (szs ! i)))
         [0..<length szs]"

definition row_major_ranks :: "int list \<Rightarrow> int list \<Rightarrow> int list" where
  "row_major_ranks szs strs =
     map (\<lambda>k. dot (row_major_coord szs k) strs) [0..<prod_list (map nat szs)]"

text \<open>
  The overlap condition in the spec's words: among the pairs kept after sorting, some
  pair has the stride of the pair before it, or a stride below that pair's span.
\<close>

definition clash_at :: "(int \<times> int) list \<Rightarrow> nat \<Rightarrow> bool" where
  "clash_at ps i =
     (snd (ps ! Suc i) = snd (ps ! i) \<or> snd (ps ! Suc i) < fst (ps ! i) * snd (ps ! i))"

definition some_clash :: "(int \<times> int) list \<Rightarrow> bool" where
  "some_clash ps = list_ex (clash_at ps) [0..<length ps - 1]"

text \<open>
  A list of (size, stride) pairs is aligned to a boundary when the first stride is a
  multiple of the boundary and every later stride is a multiple of the span, size
  times stride, of the pair before it.
\<close>

fun aligned :: "int \<Rightarrow> (int \<times> int) list \<Rightarrow> bool" where
  "aligned boundary [] = True"
| "aligned boundary ((sz, st) # rest) = (boundary dvd st \<and> aligned (sz * st) rest)"

section \<open>Auxiliary functions\<close>

text \<open>
  The ranks of a flat list of (size, stride) pairs by recursion on the list: the
  first pair is the outermost loop.
\<close>

fun ranks_of :: "(int \<times> int) list \<Rightarrow> int list" where
  "ranks_of [] = [0]"
| "ranks_of ((sz, st) # ds) =
     concat (map (\<lambda>c. map (\<lambda>r. c * st + r) (ranks_of ds)) (range_py sz))"

text \<open>
  All sums of an element of one multiset and an element of another, and the ranks
  that a single dimension contributes.
\<close>

definition msum :: "int multiset \<Rightarrow> int multiset \<Rightarrow> int multiset" where
  "msum M N = sum_mset (image_mset (\<lambda>x. image_mset (\<lambda>y. x + y) N) M)"

definition dim_ranks :: "int \<times> int \<Rightarrow> int multiset" where
  "dim_ranks d = mset (map (\<lambda>c. c * snd d) (range_py (fst d)))"

section \<open>Properties\<close>

subsection \<open>Construction\<close>

lemma same_tree_shape_flatten:
  "same_tree_shape a b \<Longrightarrow> length (flatten a) = length (flatten b)"
proof (induction a b rule: same_tree_shape.induct)
  case (2 ts us)
  from "2.prems" have "list_all2 same_tree_shape ts us" by simp
  then have "list_all2 (\<lambda>t u. length (flatten t) = length (flatten u)) ts us"
    using "2.IH" by (auto simp: list_all2_conv_all_nth)
  then have "map (\<lambda>t. length (flatten t)) ts = map (\<lambda>u. length (flatten u)) us"
    by (induction ts us rule: list_all2_induct) auto
  then show ?case by (simp add: length_concat comp_def)
qed auto

text \<open>
  C6, as the spec has it, does not hold: construction compares only the numbers of leaves,
  and only when both trees are tuples. The pair \<open>((2,2),3)\<close>, \<open>(1,(2,4))\<close> of the claim
  has three leaves on each side and is accepted although the nestings disagree; a
  leaf paired with a tuple is accepted although the numbers of leaves differ.
\<close>

theorem new_layout_accepts_unequal_trees:
  "\<not> same_tree_shape (Node [Node [Leaf 2, Leaf 2], Leaf 3]) (Node [Leaf 1, Node [Leaf 2, Leaf 4]])
   \<and> new_layout (Node [Node [Leaf 2, Leaf 2], Leaf 3]) (Node [Leaf 1, Node [Leaf 2, Leaf 4]])
       = Inr \<lparr>shape = Node [Node [Leaf 2, Leaf 2], Leaf 3],
              stride = Node [Leaf 1, Node [Leaf 2, Leaf 4]]\<rparr>
   \<and> length (flatten (Leaf 2)) \<noteq> length (flatten (Node [Leaf 1, Leaf 2]))
   \<and> new_layout (Leaf 2) (Node [Leaf 1, Leaf 2])
       = Inr \<lparr>shape = Leaf 2, stride = Node [Leaf 1, Leaf 2]\<rparr>"
  by (simp add: new_layout_def)

text \<open>
  C6, amended. Construction fails with the shape-mismatch error exactly when shape and
  stride are both tuples and their numbers of leaves differ. Whenever it fails the two
  trees do differ in tree shape; in every other case the layout is built from the two
  trees as given.
\<close>

theorem new_layout_fails_iff:
  "(new_layout sh st = Inl ShapeMismatch
      \<longleftrightarrow> is_tuple sh \<and> is_tuple st \<and> length (flatten sh) \<noteq> length (flatten st))
   \<and> (new_layout sh st = Inl ShapeMismatch \<longrightarrow> \<not> same_tree_shape sh st)
   \<and> (new_layout sh st \<noteq> Inl ShapeMismatch
      \<longrightarrow> new_layout sh st = Inr \<lparr>shape = sh, stride = st\<rparr>)"
  using same_tree_shape_flatten [of sh st] by (auto simp: new_layout_def)

theorem new_layout_fails_iff_witness:
  "new_layout (Node [Leaf 2, Leaf 3]) (Node [Leaf 1]) = Inl ShapeMismatch
   \<and> \<not> same_tree_shape (Node [Leaf 2, Leaf 3]) (Node [Leaf 1])
   \<and> new_layout (Node [Leaf 2, Leaf 3]) (Node [Leaf 3, Leaf 1]) \<noteq> Inl ShapeMismatch
   \<and> new_layout (Node [Leaf 2, Leaf 3]) (Node [Leaf 3, Leaf 1])
       = Inr \<lparr>shape = Node [Leaf 2, Leaf 3], stride = Node [Leaf 3, Leaf 1]\<rparr>"
  using new_layout_fails_iff [of "Node [Leaf 2, Leaf 3]" "Node [Leaf 1]"]
    new_layout_fails_iff [of "Node [Leaf 2, Leaf 3]" "Node [Leaf 3, Leaf 1]"]
  by simp

subsection \<open>Enumeration in row-major order\<close>

lemma map_upt_blocks:
  "map f [0..<m * n] = concat (map (\<lambda>x. map (\<lambda>j. f (x * n + j)) [0..<n]) [0..<m])"
proof (induction m)
  case 0
  show ?case by simp
next
  case (Suc m)
  have "map (\<lambda>j. j + m * n) [0..<n] = [m * n..<n + m * n]"
    by (rule map_add_upt)
  moreover have "[0..<m * n + n] = [0..<m * n] @ [m * n..<m * n + n]"
    by (rule upt_add_eq_append) simp
  ultimately have "[0..<Suc m * n] = [0..<m * n] @ map (\<lambda>j. m * n + j) [0..<n]"
    by (simp only: mult_Suc add.commute)
  then show ?case using Suc by (simp add: comp_def)
qed

lemma row_major_coord_Cons:
  assumes "x < nat s" and "j < prod_list (map nat ss)"
  shows "row_major_coord (s # ss) (x * prod_list (map nat ss) + j) = int x # row_major_coord ss j"
proof -
  let ?N = "prod_list (map nat ss)"
  have hd: "((x * ?N + j) div ?N) mod nat s = x"
    using assms by simp
  have tl: "((x * ?N + j) div prod_list (map nat (drop (Suc i) ss))) mod nat (ss ! i)
          = (j div prod_list (map nat (drop (Suc i) ss))) mod nat (ss ! i)"
    if "i < length ss" for i
  proof -
    let ?P = "prod_list (map nat (drop (Suc i) ss))"
    let ?A = "prod_list (map nat (take i ss))"
    have "ss = take i ss @ ss ! i # drop (Suc i) ss"
      using that by (simp add: id_take_nth_drop)
    then have "?N = prod_list (map nat (take i ss @ ss ! i # drop (Suc i) ss))" by simp
    then have N: "?N = ?A * (nat (ss ! i) * ?P)" by simp
    have P: "0 < ?P" using assms(2) N by (cases "?P = 0") auto
    have "x * ?N + j = j + (x * ?A * nat (ss ! i)) * ?P"
      by (simp add: N algebra_simps)
    then have "(x * ?N + j) div ?P = x * ?A * nat (ss ! i) + j div ?P"
      using P by (simp only: div_mult_self1)
    then show ?thesis by simp
  qed
  have "[0..<Suc (length ss)] = 0 # [Suc 0..<Suc (length ss)]"
    by (rule upt_conv_Cons) simp
  then have "[0..<length (s # ss)] = 0 # map Suc [0..<length ss]"
    by (simp only: length_Cons map_Suc_upt)
  then have "row_major_coord (s # ss) (x * ?N + j)
      = int (((x * ?N + j) div ?N) mod nat s)
        # map (\<lambda>i. int (((x * ?N + j) div prod_list (map nat (drop (Suc i) ss))) mod nat (ss ! i)))
            [0..<length ss]"
    unfolding row_major_coord_def by (simp add: comp_def del: upt_Suc)
  also have "\<dots> = int x # map (\<lambda>i. int ((j div prod_list (map nat (drop (Suc i) ss))) mod nat (ss ! i)))
            [0..<length ss]"
    using hd tl by (simp del: upt_Suc)
  finally show ?thesis by (simp add: row_major_coord_def)
qed

lemma product_py_row_major:
  "product_py (map range_py szs) = map (row_major_coord szs) [0..<prod_list (map nat szs)]"
proof (induction szs)
  case Nil
  show ?case by (simp add: row_major_coord_def)
next
  case (Cons s ss)
  let ?N = "prod_list (map nat ss)"
  have "map (row_major_coord (s # ss)) [0..<nat s * ?N]
      = concat (map (\<lambda>x. map (\<lambda>j. row_major_coord (s # ss) (x * ?N + j)) [0..<?N]) [0..<nat s])"
    by (rule map_upt_blocks)
  also have "\<dots> = concat (map (\<lambda>x. map (\<lambda>j. int x # row_major_coord ss j) [0..<?N]) [0..<nat s])"
    by (intro arg_cong[where f=concat] map_cong refl) (simp add: row_major_coord_Cons)
  finally show ?case using Cons by (simp add: range_py_def comp_def)
qed

lemma prod_list_nat:
  "\<forall>s \<in> set szs. 0 \<le> s \<Longrightarrow> int (prod_list (map nat szs)) = prod_list szs"
  by (induction szs) simp_all

lemma member_ranks_eq_row_major:
  "member_ranks L = row_major_ranks (flatten (sizes L)) (flatten (strides L))"
  by (simp add: member_ranks_def row_major_ranks_def product_py_row_major)

lemma length_member_ranks:
  "\<forall>s \<in> set (flatten (sizes L)). 0 \<le> s \<Longrightarrow> int (length (member_ranks L)) = numel L"
  using prod_list_nat [of "flatten (sizes L)"]
  by (simp add: member_ranks_eq_row_major row_major_ranks_def numel_def sizes_def)

text \<open>
  C3. \<^verbatim>\<open>member_ranks\<close> lists, for \<open>k = 0, 1, \<dots>\<close>, the sum of coordinate times stride at
  the \<open>k\<close>-th point of the Cartesian product of the ranges in row-major order, the
  leftmost dimension varying slowest. For sizes that are not negative, as the leaves
  of a layout are, the length is \<^verbatim>\<open>numel()\<close>. The two examples of the spec come out as
  stated.
\<close>

theorem member_ranks_row_major:
  "member_ranks L = row_major_ranks (flatten (sizes L)) (flatten (strides L))
   \<and> ((\<forall>s \<in> set (flatten (sizes L)). 0 \<le> s) \<longrightarrow> int (length (member_ranks L)) = numel L)
   \<and> member_ranks \<lparr>shape = Node [Leaf 2, Leaf 3], stride = Node [Leaf 3, Leaf 1]\<rparr>
       = [0, 1, 2, 3, 4, 5]
   \<and> member_ranks \<lparr>shape = Node [Leaf 2, Leaf 3], stride = Node [Leaf 1, Leaf 2]\<rparr>
       = [0, 2, 4, 1, 3, 5]"
proof (intro conjI impI)
  show "member_ranks L = row_major_ranks (flatten (sizes L)) (flatten (strides L))"
    by (rule member_ranks_eq_row_major)
  show "int (length (member_ranks L)) = numel L"
    if "\<forall>s \<in> set (flatten (sizes L)). 0 \<le> s"
    using prod_list_nat [OF that]
    by (simp add: member_ranks_eq_row_major row_major_ranks_def numel_def sizes_def)
  show "member_ranks \<lparr>shape = Node [Leaf 2, Leaf 3], stride = Node [Leaf 3, Leaf 1]\<rparr>
       = [0, 1, 2, 3, 4, 5]"
    by code_simp
  show "member_ranks \<lparr>shape = Node [Leaf 2, Leaf 3], stride = Node [Leaf 1, Leaf 2]\<rparr>
       = [0, 2, 4, 1, 3, 5]"
    by code_simp
qed

theorem member_ranks_row_major_witness:
  "list_all (\<lambda>s. 0 \<le> s)
     (flatten (sizes \<lparr>shape = Node [Leaf 2, Node [Leaf 0, Leaf 3]],
                      stride = Node [Leaf 3, Node [Leaf 5, Leaf 1]]\<rparr>))
   \<and> int (length (member_ranks \<lparr>shape = Node [Leaf 2, Node [Leaf 0, Leaf 3]],
                                   stride = Node [Leaf 3, Node [Leaf 5, Leaf 1]]\<rparr>))
       = numel \<lparr>shape = Node [Leaf 2, Node [Leaf 0, Leaf 3]],
                 stride = Node [Leaf 3, Node [Leaf 5, Leaf 1]]\<rparr>"
  using member_ranks_row_major [of "\<lparr>shape = Node [Leaf 2, Node [Leaf 0, Leaf 3]],
                                     stride = Node [Leaf 3, Node [Leaf 5, Leaf 1]]\<rparr>",
                                THEN conjunct2, THEN conjunct1]
  by (simp add: sizes_def)

subsection \<open>The overlap check\<close>

lemma check_loop_filter:
  "check_loop a b ps = check_loop a b (filter (\<lambda>(sz, st). sz \<noteq> 1) ps)"
  by (induction a b ps rule: check_loop.induct) auto

lemma list_ex_upt_Suc:
  "list_ex P [0..<Suc n] = (P 0 \<or> list_ex (\<lambda>i. P (Suc i)) [0..<n])"
proof -
  have "(\<exists>x<Suc n. P x) = (P 0 \<or> (\<exists>i<n. P (Suc i)))"
  proof
    assume "\<exists>x<Suc n. P x"
    then obtain x where x: "x < Suc n" "P x" by blast
    then show "P 0 \<or> (\<exists>i<n. P (Suc i))" by (cases x) auto
  next
    assume "P 0 \<or> (\<exists>i<n. P (Suc i))"
    then show "\<exists>x<Suc n. P x" by auto
  qed
  then show ?thesis
    by (simp add: list_ex_iff Bex_def del: upt_Suc)
qed

lemma some_clash_Cons2:
  "some_clash (p # q # ps) =
     ((snd q = snd p \<or> snd q < fst p * snd p) \<or> some_clash (q # ps))"
proof -
  have step: "clash_at (p # q # ps) (Suc i) = clash_at (q # ps) i" for i
    by (simp add: clash_at_def)
  have first: "clash_at (p # q # ps) 0 = (snd q = snd p \<or> snd q < fst p * snd p)"
    by (simp add: clash_at_def)
  have "some_clash (p # q # ps) = list_ex (clash_at (p # q # ps)) [0..<Suc (length ps)]"
    by (simp add: some_clash_def del: upt_Suc)
  also have "\<dots> =
      (clash_at (p # q # ps) 0 \<or> list_ex (\<lambda>i. clash_at (p # q # ps) (Suc i)) [0..<length ps])"
    by (rule list_ex_upt_Suc)
  also have "\<dots> = ((snd q = snd p \<or> snd q < fst p * snd p)
                   \<or> list_ex (\<lambda>i. clash_at (q # ps) i) [0..<length ps])"
    by (simp only: step first)
  finally show ?thesis
    by (simp add: some_clash_def del: upt_Suc)
qed

lemma check_loop_kept:
  assumes "\<forall>p \<in> set ps. fst p \<noteq> 1"
  shows "check_loop (fst p * snd p) (snd p) ps = (\<not> some_clash (p # ps))"
  using assms
proof (induction ps arbitrary: p)
  case Nil
  show ?case by (simp add: some_clash_def)
next
  case (Cons q qs)
  obtain sz st where q: "q = (sz, st)" by (cases q)
  from Cons.prems have "sz \<noteq> 1" and rest: "\<forall>p \<in> set qs. fst p \<noteq> 1"
    by (auto simp: q)
  have "check_loop (fst q * snd q) (snd q) qs = (\<not> some_clash (q # qs))"
    using rest by (rule Cons.IH)
  then show ?case
    using \<open>sz \<noteq> 1\<close> by (simp add: q some_clash_Cons2)
qed

lemma check_loop_start:
  assumes "\<forall>p \<in> set ps. fst p \<noteq> 1" and "\<forall>p \<in> set ps. 0 \<le> snd p"
  shows "check_loop (- 1) (- 1) ps = (\<not> some_clash ps)"
proof (cases ps)
  case Nil
  then show ?thesis by (simp add: some_clash_def)
next
  case (Cons p qs)
  obtain sz st where p: "p = (sz, st)" by (cases p)
  have "sz \<noteq> 1" and "0 \<le> st" using assms by (auto simp: Cons p)
  moreover have "check_loop (fst p * snd p) (snd p) qs = (\<not> some_clash (p # qs))"
    using assms(1) by (intro check_loop_kept) (simp add: Cons)
  ultimately show ?thesis by (simp add: Cons p)
qed

text \<open>
  C5. For a layout whose strides are not negative, as the leaves of a layout are,
  \<^verbatim>\<open>check_non_overlap\<close> is false exactly when, among the pairs sorted by stride with the
  pairs of size \<open>1\<close> left out, some pair has the stride of the pair kept before it or a
  stride below that pair's span. The function is total: it returns a truth value for
  every layout. The two examples of the spec come out as stated.
\<close>

theorem check_non_overlap_iff:
  assumes "\<forall>st \<in> set (flatten (stride L)). 0 \<le> st"
  shows "check_non_overlap L = (\<not> some_clash (kept_pairs L))
       \<and> check_non_overlap \<lparr>shape = Node [Leaf 2, Leaf 3], stride = Node [Leaf 6, Leaf 1]\<rparr>
       \<and> \<not> check_non_overlap \<lparr>shape = Node [Leaf 2, Leaf 3], stride = Node [Leaf 2, Leaf 1]\<rparr>"
proof (intro conjI)
  have "\<forall>p \<in> set (kept_pairs L). 0 \<le> snd p"
    using assms by (auto simp: kept_pairs_def sizes_and_strides_def dest: set_zip_rightD)
  moreover have "\<forall>p \<in> set (kept_pairs L). fst p \<noteq> 1"
    by (auto simp: kept_pairs_def)
  ultimately have "check_loop (- 1) (- 1) (kept_pairs L) = (\<not> some_clash (kept_pairs L))"
    by (rule check_loop_start[rotated])
  then show "check_non_overlap L = (\<not> some_clash (kept_pairs L))"
    unfolding check_non_overlap_def kept_pairs_def by (subst check_loop_filter) simp
  show "check_non_overlap \<lparr>shape = Node [Leaf 2, Leaf 3], stride = Node [Leaf 6, Leaf 1]\<rparr>"
    by (simp add: check_non_overlap_def sizes_and_strides_def)
  show "\<not> check_non_overlap \<lparr>shape = Node [Leaf 2, Leaf 3], stride = Node [Leaf 2, Leaf 1]\<rparr>"
    by (simp add: check_non_overlap_def sizes_and_strides_def)
qed

theorem check_non_overlap_iff_witness:
  "list_all (\<lambda>st. 0 \<le> st)
     (flatten (stride \<lparr>shape = Node [Leaf 2, Node [Leaf 1, Leaf 2]],
                       stride = Node [Leaf 4, Node [Leaf 7, Leaf 1]]\<rparr>))
   \<and> check_non_overlap \<lparr>shape = Node [Leaf 2, Node [Leaf 1, Leaf 2]],
                           stride = Node [Leaf 4, Node [Leaf 7, Leaf 1]]\<rparr>
   \<and> \<not> some_clash (kept_pairs \<lparr>shape = Node [Leaf 2, Node [Leaf 1, Leaf 2]],
                                      stride = Node [Leaf 4, Node [Leaf 7, Leaf 1]]\<rparr>)"
  using check_non_overlap_iff [of "\<lparr>shape = Node [Leaf 2, Node [Leaf 1, Leaf 2]],
                                     stride = Node [Leaf 4, Node [Leaf 7, Leaf 1]]\<rparr>"]
  by (simp add: check_non_overlap_def sizes_and_strides_def)

subsection \<open>Ranks of a flat list of dimensions\<close>

lemma product_py_replicate0:
  "product_py [map int [0..<n]] = map (\<lambda>k. [int k]) [0..<n]"
  by (simp add: map_concat comp_def concat_map_singleton)

lemma dot_Cons: "dot (c # cs) (s # ss) = c * s + dot cs ss"
  by (simp add: dot_def)

lemma dot_Nil: "dot [] ss = 0"
  by (simp add: dot_def)

lemma ranks_of_zip:
  "length szs = length strs \<Longrightarrow>
   map (\<lambda>coord. dot coord strs) (product_py (map range_py szs)) = ranks_of (zip szs strs)"
proof (induction szs strs rule: list_induct2)
  case Nil
  show ?case by (simp add: dot_Nil)
next
  case (Cons s szs t strs)
  have "map (\<lambda>coord. dot coord (t # strs)) (product_py (map range_py (s # szs)))
      = concat (map (\<lambda>c. map (\<lambda>coord. c * t + dot coord strs) (product_py (map range_py szs)))
                    (range_py s))"
    by (simp add: map_concat comp_def dot_Cons)
  also have "\<dots> = concat (map (\<lambda>c. map (\<lambda>r. c * t + r)
                        (map (\<lambda>coord. dot coord strs) (product_py (map range_py szs))))
                    (range_py s))"
    by (simp add: comp_def)
  finally show ?case by (simp only: Cons.IH ranks_of.simps zip_Cons_Cons)
qed

lemma member_ranks_ranks_of:
  "length (flatten (shape L)) = length (flatten (stride L)) \<Longrightarrow>
   member_ranks L = ranks_of (sizes_and_strides L)"
  by (simp add: member_ranks_def sizes_and_strides_def sizes_def strides_def ranks_of_zip)

lemma member_ranks_flat_layout: "member_ranks (flat_layout ds) = ranks_of ds"
proof -
  have "flatten (Node (map (\<lambda>d. Leaf (f d)) ds)) = map f ds" for f :: "int \<times> int \<Rightarrow> int"
    by (induction ds) simp_all
  then have "sizes_and_strides (flat_layout ds) = ds"
    and "length (flatten (shape (flat_layout ds))) = length (flatten (stride (flat_layout ds)))"
    by (simp_all add: sizes_and_strides_def flat_layout_def zip_map_fst_snd)
  then show ?thesis by (simp add: member_ranks_ranks_of)
qed

lemma ranks_of_size_one: "ranks_of ((1, st) # ds) = ranks_of ds"
  by (simp add: range_py_def map_idI)

lemma ranks_of_filter:
  "ranks_of (filter (\<lambda>(sz, st). sz \<noteq> 1) ds) = ranks_of ds"
proof (induction ds)
  case Nil
  show ?case by simp
next
  case (Cons d ds)
  obtain sz st where d: "d = (sz, st)" by (cases d)
  show ?case
  proof (cases "sz = 1")
    case True
    then show ?thesis using Cons by (simp add: d ranks_of_size_one del: ranks_of.simps)
  next
    case False
    then show ?thesis using Cons by (simp add: d)
  qed
qed

lemma merge_dim_not_Nil: "merge_dim d ds \<noteq> []"
  by (cases d; cases ds) (auto split: if_splits)

lemma foldr_merge_dim_Nil: "foldr merge_dim xs [] = [] \<longleftrightarrow> xs = []"
  by (cases xs) (simp_all add: merge_dim_not_Nil)

lemma merge_dim_nonneg:
  "0 \<le> fst d \<Longrightarrow> \<forall>e \<in> set ds. 0 \<le> fst e \<Longrightarrow> \<forall>e \<in> set (merge_dim d ds). 0 \<le> fst e"
  by (cases d; cases ds) (auto split: if_splits)

lemma foldr_merge_dim_nonneg:
  "\<forall>e \<in> set xs. 0 \<le> fst e \<Longrightarrow> \<forall>e \<in> set (foldr merge_dim xs []). 0 \<le> fst e"
proof (induction xs)
  case Nil
  show ?case by simp
next
  case (Cons d xs)
  have "\<forall>e \<in> set (merge_dim d (foldr merge_dim xs [])). 0 \<le> fst e"
    using Cons by (intro merge_dim_nonneg) simp_all
  then show ?case by simp
qed

lemma concat_concat_map:
  "concat (concat (map f xs)) = concat (map (\<lambda>x. concat (f x)) xs)"
  by (induction xs) simp_all

lemma range_py_mult:
  assumes "0 \<le> a" and "0 \<le> b"
  shows "map f (range_py (a * b))
       = concat (map (\<lambda>x. map (\<lambda>y. f (x * b + y)) (range_py b)) (range_py a))"
proof -
  have "map (\<lambda>k. f (int k)) [0..<nat a * nat b]
      = concat (map (\<lambda>x. map (\<lambda>j. f (int (x * nat b + j))) [0..<nat b]) [0..<nat a])"
    by (rule map_upt_blocks)
  then show ?thesis
    using assms by (simp add: range_py_def nat_mult_distrib comp_def)
qed

lemma ranks_of_merge_dim:
  assumes "0 \<le> fst d" and "\<forall>e \<in> set ds. 0 \<le> fst e"
  shows "ranks_of (merge_dim d ds) = ranks_of (d # ds)"
proof (cases ds)
  case Nil
  then show ?thesis by (cases d) simp
next
  case (Cons e rest)
  obtain sz st where d: "d = (sz, st)" by (cases d)
  obtain isz ist where e: "e = (isz, ist)" by (cases e)
  have nonneg: "0 \<le> sz" "0 \<le> isz" using assms by (simp_all add: d e Cons)
  show ?thesis
  proof (cases "ist * isz = st")
    case False
    then show ?thesis by (simp add: d e Cons)
  next
    case True
    let ?R = "ranks_of rest"
    have "ranks_of ((sz * isz, ist) # rest)
        = concat (map (\<lambda>c. map (\<lambda>r. c * ist + r) ?R) (range_py (sz * isz)))"
      by simp
    also have "\<dots> = concat (concat (map (\<lambda>x. map (\<lambda>y. map (\<lambda>r. (x * isz + y) * ist + r) ?R)
                                                   (range_py isz)) (range_py sz)))"
      by (simp only: range_py_mult [OF nonneg])
    also have "\<dots> = concat (map (\<lambda>x. concat (map (\<lambda>y. map (\<lambda>r. (x * isz + y) * ist + r) ?R)
                                                   (range_py isz))) (range_py sz))"
      by (rule concat_concat_map)
    also have "\<dots> = concat (map (\<lambda>x. map (\<lambda>r'. x * st + r')
                         (concat (map (\<lambda>y. map (\<lambda>r. y * ist + r) ?R) (range_py isz))))
                       (range_py sz))"
      by (simp add: map_concat comp_def algebra_simps flip: True)
    also have "\<dots> = ranks_of ((sz, st) # (isz, ist) # rest)"
      by simp
    finally show ?thesis using True by (simp add: d e Cons)
  qed
qed

lemma ranks_of_Cons_cong:
  "ranks_of ds = ranks_of es \<Longrightarrow> ranks_of (d # ds) = ranks_of (d # es)"
  by (cases d) simp

lemma ranks_of_foldr_merge_dim:
  "\<forall>e \<in> set xs. 0 \<le> fst e \<Longrightarrow> ranks_of (foldr merge_dim xs []) = ranks_of xs"
proof (induction xs)
  case Nil
  show ?case by simp
next
  case (Cons d xs)
  have "ranks_of (merge_dim d (foldr merge_dim xs [])) = ranks_of (d # foldr merge_dim xs [])"
    using Cons.prems by (intro ranks_of_merge_dim foldr_merge_dim_nonneg) simp_all
  also have "\<dots> = ranks_of (d # xs)"
    using Cons by (intro ranks_of_Cons_cong) simp
  finally show ?case by simp
qed

lemma ranks_of_coalesce_dims:
  assumes "\<forall>e \<in> set ds. 0 \<le> fst e"
  shows "ranks_of (coalesce_dims ds) = ranks_of ds"
proof -
  have "ranks_of (coalesce_dims ds) = ranks_of (filter (\<lambda>(sz, st). sz \<noteq> 1) ds)"
    unfolding coalesce_dims_def using assms by (intro ranks_of_foldr_merge_dim) simp
  then show ?thesis by (simp only: ranks_of_filter)
qed


lemma flatten_leaves: "flatten (Node (map (\<lambda>d. Leaf (f d)) ds)) = map f ds"
  by (induction ds) simp_all

lemma new_layout_flat: "new_layout (shape (flat_layout ds)) (stride (flat_layout ds)) = Inr (flat_layout ds)"
  by (simp add: new_layout_def flat_layout_def flatten_leaves del: flatten.simps)

lemma prod_list_all_one: "\<forall>s \<in> set szs. s = (1::int) \<Longrightarrow> prod_list szs = 1"
  by (induction szs) simp_all

subsection \<open>Coalescing keeps the ranks\<close>

text \<open>
  C2. For a layout with as many size leaves as stride leaves and no negative size,
  which every valid layout is, \<^verbatim>\<open>coalesce\<close> succeeds and the coalesced layout has the
  same \<^verbatim>\<open>member_ranks\<close>, element by element.
\<close>

theorem coalesce_member_ranks:
  assumes len: "length (flatten (shape L)) = length (flatten (stride L))"
    and nonneg: "\<forall>s \<in> set (flatten (shape L)). 0 \<le> s"
  shows "\<exists>C. coalesce L = Inr C \<and> member_ranks C = member_ranks L"
proof -
  let ?ds = "sizes_and_strides L"
  have fst_ds: "map fst ?ds = flatten (shape L)"
    using len by (simp add: sizes_and_strides_def)
  have "\<forall>e \<in> set ?ds. 0 \<le> fst e"
    using nonneg by (auto simp: sizes_and_strides_def dest: set_zip_leftD)
  then have ranks: "ranks_of (coalesce_dims ?ds) = member_ranks L"
    by (simp add: ranks_of_coalesce_dims member_ranks_ranks_of [OF len])
  show ?thesis
  proof (cases "coalesce_dims ?ds = []")
    case True
    then have "filter (\<lambda>(sz, st). sz \<noteq> 1) ?ds = []"
      by (simp add: coalesce_dims_def foldr_merge_dim_Nil)
    then have "\<forall>e \<in> set ?ds. fst e = 1"
      by (auto simp: filter_empty_conv)
    then have "\<forall>s \<in> set (map fst ?ds). s = 1" by simp
    then have "numel L = 1"
      unfolding fst_ds numel_def by (rule prod_list_all_one)
    then have "coalesce L = Inr \<lparr>shape = Leaf 1, stride = Leaf 1\<rparr>"
      using True by (simp add: coalesce_def pycute_coalesce_def new_layout_def)
    moreover have "member_ranks \<lparr>shape = Leaf 1, stride = Leaf 1\<rparr> = [0]"
      by code_simp
    moreover have "member_ranks L = [0]"
      using ranks True by simp
    ultimately show ?thesis by simp
  next
    case False
    then have "coalesce L = Inr (flat_layout (coalesce_dims ?ds))"
      by (simp add: coalesce_def pycute_coalesce_def new_layout_flat)
    then show ?thesis
      using ranks by (simp add: member_ranks_flat_layout)
  qed
qed

theorem coalesce_member_ranks_witness:
  "coalesce \<lparr>shape = Node [Leaf 2, Node [Leaf 3, Leaf 1], Leaf 2],
              stride = Node [Leaf 12, Node [Leaf 2, Leaf 7], Leaf 1]\<rparr>
     = Inr \<lparr>shape = Node [Leaf 2, Leaf 6], stride = Node [Leaf 12, Leaf 1]\<rparr>
   \<and> member_ranks \<lparr>shape = Node [Leaf 2, Leaf 6], stride = Node [Leaf 12, Leaf 1]\<rparr>
     = member_ranks \<lparr>shape = Node [Leaf 2, Node [Leaf 3, Leaf 1], Leaf 2],
                      stride = Node [Leaf 12, Node [Leaf 2, Leaf 7], Leaf 1]\<rparr>"
proof -
  let ?L = "\<lparr>shape = Node [Leaf 2, Node [Leaf 3, Leaf 1], Leaf 2],
              stride = Node [Leaf 12, Node [Leaf 2, Leaf 7], Leaf 1]\<rparr>"
  have c: "coalesce ?L = Inr \<lparr>shape = Node [Leaf 2, Leaf 6], stride = Node [Leaf 12, Leaf 1]\<rparr>"
    by (simp add: coalesce_def pycute_coalesce_def coalesce_dims_def sizes_and_strides_def
        flat_layout_def new_layout_def)
  have "length (flatten (shape ?L)) = length (flatten (stride ?L))" by simp
  moreover have "\<forall>s \<in> set (flatten (shape ?L)). 0 \<le> s" by simp
  ultimately have "\<exists>C. coalesce ?L = Inr C \<and> member_ranks C = member_ranks ?L"
    by (rule coalesce_member_ranks)
  then show ?thesis using c by simp
qed

subsection \<open>Global ranks\<close>

text \<open>
  C4. When the complement is \<open>C\<close>, \<^verbatim>\<open>global_ranks\<close> returns one group for each element of
  \<open>C.member_ranks()\<close>, in that order, the \<open>i\<close>-th group being \<open>L.member_ranks()\<close> with the
  \<open>i\<close>-th offset added to every element. For sizes that are not negative the number
  of groups is \<open>C.numel()\<close> and every group has \<open>L.numel()\<close> elements.
\<close>

theorem global_ranks_groups:
  assumes "complement L world_size = Inr C"
  shows "global_ranks L world_size
           = Inr (map (\<lambda>off. map (\<lambda>r. off + r) (member_ranks L)) (member_ranks C))
       \<and> (\<exists>groups. global_ranks L world_size = Inr groups
            \<and> length groups = length (member_ranks C)
            \<and> (\<forall>i < length groups.
                  groups ! i = map (\<lambda>r. member_ranks C ! i + r) (member_ranks L))
            \<and> ((\<forall>s \<in> set (flatten (sizes C)). 0 \<le> s) \<longrightarrow> int (length groups) = numel C)
            \<and> ((\<forall>s \<in> set (flatten (sizes L)). 0 \<le> s)
                  \<longrightarrow> (\<forall>g \<in> set groups. int (length g) = numel L)))"
proof -
  let ?groups = "map (\<lambda>off. map (\<lambda>r. off + r) (member_ranks L)) (member_ranks C)"
  have eq: "global_ranks L world_size = Inr ?groups"
    using assms by (simp add: global_ranks_def)
  have len: "int (length (member_ranks M)) = numel M"
    if "\<forall>s \<in> set (flatten (sizes M)). 0 \<le> s" for M
    using length_member_ranks [OF that] .
  have "length ?groups = length (member_ranks C)" by simp
  moreover have "\<forall>i < length ?groups. ?groups ! i = map (\<lambda>r. member_ranks C ! i + r) (member_ranks L)"
    by simp
  moreover have "(\<forall>s \<in> set (flatten (sizes C)). 0 \<le> s) \<longrightarrow> int (length ?groups) = numel C"
    using len [of C] by simp
  moreover have "(\<forall>s \<in> set (flatten (sizes L)). 0 \<le> s)
      \<longrightarrow> (\<forall>g \<in> set ?groups. int (length g) = numel L)"
    using len [of L] by auto
  ultimately show ?thesis using eq by blast
qed

theorem global_ranks_groups_witness:
  "complement \<lparr>shape = Node [Leaf 4], stride = Node [Leaf 1]\<rparr> 16
     = Inr \<lparr>shape = Node [Leaf 4], stride = Node [Leaf 4]\<rparr>
   \<and> global_ranks \<lparr>shape = Node [Leaf 4], stride = Node [Leaf 1]\<rparr> 16
     = Inr (map (\<lambda>off. map (\<lambda>r. off + r)
                          (member_ranks \<lparr>shape = Node [Leaf 4], stride = Node [Leaf 1]\<rparr>))
                (member_ranks \<lparr>shape = Node [Leaf 4], stride = Node [Leaf 4]\<rparr>))"
proof -
  have c: "complement \<lparr>shape = Node [Leaf 4], stride = Node [Leaf 1]\<rparr> 16
     = Inr \<lparr>shape = Node [Leaf 4], stride = Node [Leaf 4]\<rparr>"
    by code_simp
  from global_ranks_groups [OF c] c show ?thesis by blast
qed

text \<open>
  C7. The complement of \<open>(4,):(1,)\<close> in a world of \<open>8\<close> is \<open>(2,):(4,)\<close>; the layout repeated
  at the offsets of its complement gives the groups \<open>0..3\<close> and \<open>4..7\<close>, that is each of
  \<open>0..7\<close> once.
\<close>

theorem complement_example:
  "complement \<lparr>shape = Node [Leaf 4], stride = Node [Leaf 1]\<rparr> 8
     = Inr \<lparr>shape = Node [Leaf 2], stride = Node [Leaf 4]\<rparr>
   \<and> global_ranks \<lparr>shape = Node [Leaf 4], stride = Node [Leaf 1]\<rparr> 8
     = Inr [[0, 1, 2, 3], [4, 5, 6, 7]]
   \<and> sort (concat [[0, 1, 2, 3], [4, 5, 6, 7]]) = [0, 1, 2, 3, 4, 5, 6, 7 :: int]"
  by code_simp

subsection \<open>Layout and complement together\<close>

lemma msum_empty_left: "msum {#} N = {#}"
  by (simp add: msum_def)

lemma msum_add_left: "msum (add_mset x M) N = image_mset (\<lambda>y. x + y) N + msum M N"
  by (simp add: msum_def)

lemma msum_empty_right: "msum M {#} = {#}"
  by (induction M) (simp_all add: msum_empty_left msum_add_left)

lemma msum_add_right: "msum M (add_mset y N) = image_mset (\<lambda>x. x + y) M + msum M N"
  by (induction M) (simp_all add: msum_empty_left msum_add_left)

lemma msum_commute: "msum M N = msum N M"
  by (induction M) (simp_all add: msum_empty_left msum_empty_right msum_add_left msum_add_right
      add.commute)

lemma msum_union_left: "msum (M + M') N = msum M N + msum M' N"
  by (simp add: msum_def)

lemma msum_image_left: "msum (image_mset (\<lambda>y. x + y) N) P = image_mset (\<lambda>y. x + y) (msum N P)"
  by (induction N)
    (simp_all add: msum_empty_left msum_add_left image_mset.compositionality comp_def add.assoc)

lemma msum_assoc: "msum (msum M N) P = msum M (msum N P)"
  by (induction M) (simp_all add: msum_empty_left msum_add_left msum_union_left msum_image_left)

lemma msum_left_commute: "msum A (msum B M) = msum B (msum A M)"
  by (metis msum_assoc msum_commute)

lemma msum_zero_left: "msum {#0#} N = N"
  by (simp add: msum_add_left msum_empty_left)

lemma mset_plus_lists:
  "mset (concat (map (\<lambda>x. map (\<lambda>y. x + y) ys) xs)) = msum (mset xs) (mset ys)"
  by (induction xs) (simp_all add: msum_empty_left msum_add_left)

lemma mset_ranks_of_Cons:
  "mset (ranks_of (d # ds)) = msum (dim_ranks d) (mset (ranks_of ds))"
proof -
  obtain sz st where d: "d = (sz, st)" by (cases d)
  have "ranks_of ((sz, st) # ds)
      = concat (map (\<lambda>x. map (\<lambda>y. x + y) (ranks_of ds)) (map (\<lambda>c. c * st) (range_py sz)))"
    by (simp add: comp_def)
  then show ?thesis
    unfolding d dim_ranks_def by (simp only: mset_plus_lists fst_conv snd_conv)
qed

lemma mset_ranks_of_insort:
  "mset (ranks_of (insort_key snd d ds)) = mset (ranks_of (d # ds))"
proof (induction ds)
  case Nil
  show ?case by simp
next
  case (Cons e ds)
  show ?case
  proof (cases "snd d \<le> snd e")
    case True
    then show ?thesis by simp
  next
    case False
    then have "mset (ranks_of (insort_key snd d (e # ds)))
        = msum (dim_ranks e) (mset (ranks_of (insort_key snd d ds)))"
      by (simp add: mset_ranks_of_Cons del: ranks_of.simps)
    also have "\<dots> = msum (dim_ranks e) (msum (dim_ranks d) (mset (ranks_of ds)))"
      by (simp only: Cons.IH mset_ranks_of_Cons)
    also have "\<dots> = msum (dim_ranks d) (msum (dim_ranks e) (mset (ranks_of ds)))"
      by (rule msum_left_commute)
    finally show ?thesis by (simp only: mset_ranks_of_Cons)
  qed
qed

lemma mset_ranks_of_sort:
  "mset (ranks_of (sort_key snd ds)) = mset (ranks_of ds)"
proof (induction ds)
  case Nil
  show ?case by simp
next
  case (Cons d ds)
  have "mset (ranks_of (sort_key snd (d # ds))) = mset (ranks_of (d # sort_key snd ds))"
    by (simp add: mset_ranks_of_insort del: ranks_of.simps)
  then show ?case by (simp only: mset_ranks_of_Cons Cons.IH)
qed

lemma mset_ranks_of_kept:
  "length (flatten (shape L)) = length (flatten (stride L)) \<Longrightarrow>
   mset (ranks_of (kept_pairs L)) = mset (member_ranks L)"
  by (simp add: kept_pairs_def ranks_of_filter mset_ranks_of_sort member_ranks_ranks_of)


lemma dim_ranks_upt:
  "dim_ranks (sz, st) = mset (map (\<lambda>c. int c * st) [0..<nat sz])"
  by (simp add: dim_ranks_def range_py_def comp_def)

lemma dim_ranks_one: "dim_ranks (1, st) = {#0#}"
  by (simp add: dim_ranks_def range_py_def)

lemma radix_step:
  "msum (mset (map (\<lambda>c. int c * b) [0..<q]))
        (mset (map (\<lambda>z. (b * int q) * int z) [0..<k]))
   = mset (map (\<lambda>x. b * int x) [0..<q * k])"
proof -
  have "map (\<lambda>x. b * int x) [0..<k * q]
      = concat (map (\<lambda>z. map (\<lambda>c. b * int (z * q + c)) [0..<q]) [0..<k])"
    by (rule map_upt_blocks)
  also have "\<dots> = concat (map (\<lambda>x. map (\<lambda>y. x + y) (map (\<lambda>c. int c * b) [0..<q]))
                          (map (\<lambda>z. (b * int q) * int z) [0..<k]))"
    by (simp add: comp_def algebra_simps)
  finally have "mset (map (\<lambda>x. b * int x) [0..<k * q])
      = msum (mset (map (\<lambda>z. (b * int q) * int z) [0..<k])) (mset (map (\<lambda>c. int c * b) [0..<q]))"
    by (simp only: mset_plus_lists)
  then show ?thesis
    by (simp only: msum_commute [of "mset (map (\<lambda>c. int c * b) [0..<q])"] mult.commute [of q k])
qed

lemma complement_walk_boundary:
  "complement_walk b ds W = Inr gaps \<Longrightarrow> b \<noteq> 0"
  by (cases ds) (auto split: if_splits)

lemma complement_walk_dvd:
  "complement_walk b ds W = Inr gaps \<Longrightarrow> aligned b ds \<Longrightarrow> b dvd W"
proof (induction ds arbitrary: b gaps)
  case Nil
  then show ?case by (auto split: if_splits)
next
  case (Cons d ds)
  obtain sz st where d: "d = (sz, st)" by (cases d)
  from Cons.prems(1) obtain gaps' where walk: "complement_walk (sz * st) ds W = Inr gaps'"
    by (auto simp: d split: if_splits sum.splits)
  from Cons.prems(2) have "b dvd st" and "aligned (sz * st) ds"
    by (simp_all add: d)
  then have "sz * st dvd W" using Cons.IH walk by blast
  then show ?case using \<open>b dvd st\<close> by (meson dvd_mult dvd_trans)
qed

lemma complement_walk_tiles:
  assumes "complement_walk b ds W = Inr gaps" and "0 < b" and "aligned b ds"
    and "\<forall>e \<in> set ds. 0 \<le> fst e \<and> 0 \<le> snd e"
  shows "msum (mset (ranks_of gaps)) (mset (ranks_of ds))
       = mset (map (\<lambda>x. b * int x) [0..<nat (W div b)])"
  using assms
proof (induction ds arbitrary: b gaps)
  case Nil
  then have gaps: "gaps = [(W div b, b)]"
    by (auto split: if_splits)
  have "mset (ranks_of [(W div b, b)]) = mset (map (\<lambda>x. b * int x) [0..<nat (W div b)])"
    by (simp add: range_py_def comp_def mult.commute)
  then show ?case
    unfolding gaps by (simp add: msum_commute [of _ "{#0#}"] msum_zero_left)
next
  case (Cons d ds)
  obtain sz st where d: "d = (sz, st)" by (cases d)
  from Cons.prems(1) obtain gaps' where walk: "complement_walk (sz * st) ds W = Inr gaps'"
    and gaps: "gaps = (if st = b then gaps' else (st div b, b) # gaps')"
    by (auto simp: d split: if_splits sum.splits)
  from Cons.prems(3) have dvd: "b dvd st" and al: "aligned (sz * st) ds"
    by (simp_all add: d)
  from Cons.prems(4) have nonneg: "0 \<le> sz" "0 \<le> st" and rest: "\<forall>e \<in> set ds. 0 \<le> fst e \<and> 0 \<le> snd e"
    by (simp_all add: d)
  have "sz * st \<noteq> 0" using walk by (rule complement_walk_boundary)
  then have pos: "0 < sz" "0 < st" using nonneg by (auto simp: less_le)
  then have b': "0 < sz * st" by simp
  define q where "q = st div b"
  have st: "st = b * q" using dvd by (simp add: q_def)
  have q: "0 < q" using pos(2) \<open>0 < b\<close> st by (simp add: zero_less_mult_iff)
  define m where "m = nat (W div (sz * st))"
  have IH: "msum (mset (ranks_of gaps')) (mset (ranks_of ds))
          = mset (map (\<lambda>x. (sz * st) * int x) [0..<m])"
    unfolding m_def using walk b' al rest by (rule Cons.IH)
  have gaps_ms: "mset (ranks_of gaps) = msum (dim_ranks (q, b)) (mset (ranks_of gaps'))"
  proof (cases "st = b")
    case True
    then have "q = 1" using \<open>0 < b\<close> by (simp add: q_def)
    then show ?thesis using True gaps by (simp add: dim_ranks_one msum_zero_left)
  next
    case False
    then show ?thesis using gaps by (simp only: if_False mset_ranks_of_Cons q_def)
  qed
  have "msum (mset (ranks_of gaps)) (mset (ranks_of (d # ds)))
      = msum (msum (dim_ranks (q, b)) (mset (ranks_of gaps')))
             (msum (dim_ranks (sz, st)) (mset (ranks_of ds)))"
    by (simp only: gaps_ms mset_ranks_of_Cons d)
  also have "\<dots> = msum (dim_ranks (q, b))
                      (msum (dim_ranks (sz, st)) (msum (mset (ranks_of gaps')) (mset (ranks_of ds))))"
    by (simp only: msum_assoc msum_left_commute [of "mset (ranks_of gaps')"])
  also have "\<dots> = msum (dim_ranks (q, b))
                      (msum (mset (map (\<lambda>c. int c * st) [0..<nat sz]))
                            (mset (map (\<lambda>z. (st * int (nat sz)) * int z) [0..<m])))"
    using nonneg(1) by (simp only: IH dim_ranks_upt) (simp add: mult.commute)
  also have "\<dots> = msum (dim_ranks (q, b)) (mset (map (\<lambda>x. st * int x) [0..<nat sz * m]))"
    by (simp only: radix_step)
  also have "\<dots> = msum (mset (map (\<lambda>c. int c * b) [0..<nat q]))
                      (mset (map (\<lambda>z. (b * int (nat q)) * int z) [0..<nat sz * m]))"
    using q by (simp only: dim_ranks_upt) (simp add: st)
  also have "\<dots> = mset (map (\<lambda>x. b * int x) [0..<nat q * (nat sz * m)])"
    by (simp only: radix_step)
  finally have main: "msum (mset (ranks_of gaps)) (mset (ranks_of (d # ds)))
      = mset (map (\<lambda>x. b * int x) [0..<nat q * (nat sz * m)])" .
  have "sz * st dvd W" using walk al by (rule complement_walk_dvd)
  then obtain w where W: "W = (sz * st) * w" by (auto simp: dvd_def)
  have "W div b = q * (sz * w)"
    using \<open>0 < b\<close> by (simp add: W st algebra_simps)
  moreover have "W div (sz * st) = w"
    unfolding W using \<open>sz * st \<noteq> 0\<close> by (rule nonzero_mult_div_cancel_left)
  ultimately have "nat (W div b) = nat q * (nat sz * m)"
    using q pos(1) by (simp add: m_def nat_mult_distrib)
  then show ?case using main by simp
qed


lemma upto_map_int: "[0..int n - 1] = map int [0..<n]"
proof (induction n)
  case 0
  show ?case by simp
next
  case (Suc n)
  have "[0..int (Suc n) - 1] = [0..int n - 1] @ [int n]"
    using upto_rec2 [of 0 "int n"] by simp
  then show ?case using Suc by simp
qed

lemma upto_nat: "[0..w - 1] = map int [0..<nat w]"
proof (cases "0 \<le> w")
  case True
  then show ?thesis using upto_map_int [of "nat w"] by simp
next
  case False
  then show ?thesis by simp
qed

lemma complement_Inr:
  assumes "complement L world_size = Inr C"
  obtains gaps where "complement_walk 1 (kept_pairs L) world_size = Inr gaps"
    and "C = flat_layout gaps"
proof -
  from assms obtain C' where c': "pycute_complement L world_size = Inr C'"
    and c: "new_layout (shape C') (stride C') = Inr C"
    by (auto simp: complement_def split: sum.splits)
  from c' obtain gaps where walk: "complement_walk 1 (kept_pairs L) world_size = Inr gaps"
    and "C' = flat_layout gaps"
    by (auto simp: pycute_complement_def split: if_splits sum.splits)
  then have "C = flat_layout gaps" using c by (simp add: new_layout_flat)
  with walk show ?thesis by (rule that)
qed

text \<open>
  C1, as the spec has it, does not hold. The layout \<open>(2,2):(5,2)\<close> passes
  \<^verbatim>\<open>check_non_overlap\<close>, its span is \<open>10\<close> and the complement in a world of \<open>10\<close> is defined,
  but the layout has four ranks, so its groups cannot cover ten ranks: \<open>4\<close> and \<open>9\<close> are
  missing.
\<close>

theorem global_ranks_misses_ranks:
  "check_non_overlap \<lparr>shape = Node [Leaf 2, Leaf 2], stride = Node [Leaf 5, Leaf 2]\<rparr>
   \<and> complement \<lparr>shape = Node [Leaf 2, Leaf 2], stride = Node [Leaf 5, Leaf 2]\<rparr> 10
       = Inr \<lparr>shape = Node [Leaf 2, Leaf 1, Leaf 1], stride = Node [Leaf 1, Leaf 4, Leaf 10]\<rparr>
   \<and> global_ranks \<lparr>shape = Node [Leaf 2, Leaf 2], stride = Node [Leaf 5, Leaf 2]\<rparr> 10
       = Inr [[0, 2, 5, 7], [1, 3, 6, 8]]
   \<and> sort (concat [[0, 2, 5, 7], [1, 3, 6, 8 :: int]]) \<noteq> [0, 1, 2, 3, 4, 5, 6, 7, 8, 9]"
  by code_simp

text \<open>
  C1, amended. Let the layout have as many size leaves as stride leaves, none of them
  negative, let it pass \<^verbatim>\<open>check_non_overlap\<close>, and let every stride, in the order of the
  strides and with the dimensions of size \<open>1\<close> left out, be a multiple of the span of the
  dimension before it. Then for every \<^verbatim>\<open>world_size\<close> for which the complement is
  defined, the groups of \<^verbatim>\<open>global_ranks\<close>, concatenated and sorted, are
  \<open>0, 1, \<dots>, world_size - 1\<close>.
\<close>

theorem global_ranks_cover:
  assumes len: "length (flatten (shape L)) = length (flatten (stride L))"
    and sizes_nonneg: "\<forall>s \<in> set (flatten (shape L)). 0 \<le> s"
    and strides_nonneg: "\<forall>s \<in> set (flatten (stride L)). 0 \<le> s"
    and chk: "check_non_overlap L"
    and al: "aligned 1 (kept_pairs L)"
    and comp: "complement L world_size = Inr C"
  shows "\<exists>groups. global_ranks L world_size = Inr groups
           \<and> sort (concat groups) = [0..world_size - 1]"
proof -
  from comp obtain gaps where walk: "complement_walk 1 (kept_pairs L) world_size = Inr gaps"
    and C: "C = flat_layout gaps"
    by (rule complement_Inr)
  let ?groups = "map (\<lambda>off. map (\<lambda>r. off + r) (member_ranks L)) (member_ranks C)"
  have groups: "global_ranks L world_size = Inr ?groups"
    using comp by (simp add: global_ranks_def)
  have "\<forall>e \<in> set (kept_pairs L). 0 \<le> fst e \<and> 0 \<le> snd e"
    using sizes_nonneg strides_nonneg
    by (auto simp: kept_pairs_def sizes_and_strides_def dest: set_zip_leftD set_zip_rightD)
  with walk have "msum (mset (ranks_of gaps)) (mset (ranks_of (kept_pairs L)))
      = mset (map (\<lambda>x. 1 * int x) [0..<nat (world_size div 1)])"
    using al by (intro complement_walk_tiles) simp_all
  then have "mset (concat ?groups) = mset (map int [0..<nat world_size])"
    by (simp add: mset_plus_lists C member_ranks_flat_layout mset_ranks_of_kept [OF len]
        del: mset_map mset_upt)
  moreover have "sorted (map int [0..<nat world_size])"
    by (simp add: sorted_map)
  ultimately have "sort (concat ?groups) = map int [0..<nat world_size]"
    by (intro properties_for_sort) simp_all
  then show ?thesis using groups by (simp add: upto_nat)
qed

theorem global_ranks_cover_witness:
  "check_non_overlap \<lparr>shape = Node [Leaf 2, Leaf 2], stride = Node [Leaf 8, Leaf 2]\<rparr>
   \<and> aligned 1 (kept_pairs \<lparr>shape = Node [Leaf 2, Leaf 2], stride = Node [Leaf 8, Leaf 2]\<rparr>)
   \<and> complement \<lparr>shape = Node [Leaf 2, Leaf 2], stride = Node [Leaf 8, Leaf 2]\<rparr> 32
       = Inr \<lparr>shape = Node [Leaf 2, Leaf 2, Leaf 2], stride = Node [Leaf 1, Leaf 4, Leaf 16]\<rparr>
   \<and> (\<exists>groups. global_ranks \<lparr>shape = Node [Leaf 2, Leaf 2], stride = Node [Leaf 8, Leaf 2]\<rparr> 32
                  = Inr groups
          \<and> sort (concat groups) = [0..31])"
proof -
  let ?L = "\<lparr>shape = Node [Leaf 2, Leaf 2], stride = Node [Leaf 8, Leaf 2]\<rparr>"
  let ?C = "\<lparr>shape = Node [Leaf 2, Leaf 2, Leaf 2], stride = Node [Leaf 1, Leaf 4, Leaf 16]\<rparr>"
  have chk: "check_non_overlap ?L" by code_simp
  have al: "aligned 1 (kept_pairs ?L)" by code_simp
  have comp: "complement ?L 32 = Inr ?C" by code_simp
  have "\<exists>groups. global_ranks ?L 32 = Inr groups \<and> sort (concat groups) = [0..32 - 1]"
    using _ _ _ chk al comp by (rule global_ranks_cover) simp_all
  then show ?thesis using chk al comp by simp
qed

subsection \<open>Strides of a composition\<close>

lemma member_ranks_one_dim:
  assumes "flatten (shape L) = [n]" and "flatten (stride L) = [r]"
  shows "member_ranks L = map (\<lambda>k. int k * r) [0..<nat n]"
  using assms
  by (simp add: member_ranks_def sizes_def strides_def range_py_def
      product_py_replicate0 comp_def dot_def del: product_py.simps)

text \<open>
  C8. The docstring of \<^verbatim>\<open>_MeshLayout.composition\<close> promises that the stride of the
  composition is not smaller than the stride of the right layout, and says in the same
  place that the composition is \<open>self(other(input))\<close>. At \<open>self = (2,2):(1,2)\<close> and
  \<open>other = (2,):(2,)\<close> the two cannot both hold: \<open>self\<close> lists the ranks \<open>0, 2, 1, 3\<close>, so
  every layout that satisfies the equation has the ranks \<open>0, 1\<close>, and one with a
  single dimension has stride \<open>1\<close>, below the stride \<open>2\<close> of \<open>other\<close>.
\<close>

theorem composition_breaks_stride_bound:
  assumes "is_composition \<lparr>shape = Node [Leaf 2, Leaf 2], stride = Node [Leaf 1, Leaf 2]\<rparr>
                          \<lparr>shape = Node [Leaf 2], stride = Node [Leaf 2]\<rparr> R"
  shows "member_ranks R = [0, 1]
       \<and> (flatten (shape R) = [n] \<and> flatten (stride R) = [r]
            \<longrightarrow> r = 1 \<and> r < flatten (stride \<lparr>shape = Node [Leaf 2], stride = Node [Leaf 2]\<rparr>) ! 0)"
proof -
  let ?self = "\<lparr>shape = Node [Leaf 2, Leaf 2], stride = Node [Leaf 1, Leaf 2]\<rparr>"
  let ?other = "\<lparr>shape = Node [Leaf 2], stride = Node [Leaf 2]\<rparr>"
  have other: "member_ranks ?other = [0, 2]" by code_simp
  have at0: "layout_at ?self 0 = Some 0" by code_simp
  have at2: "layout_at ?self 2 = Some 1" by code_simp
  from assms have "list_all2 (\<lambda>r j. layout_at ?self j = Some r) (member_ranks R) [0, 2]"
    by (simp only: is_composition_def other)
  then have ranks: "member_ranks R = [0, 1]"
    by (auto simp: list_all2_Cons2 at0 at2)
  have "r = 1" if "flatten (shape R) = [n]" and "flatten (stride R) = [r]"
  proof -
    have eq: "map (\<lambda>k. int k * r) [0..<nat n] = [0, 1]"
      using member_ranks_one_dim [OF that] ranks by simp
    then have "length [0..<nat n] = 2"
      by (metis length_map length_Cons list.size(3) numeral_2_eq_2)
    then have "nat n = Suc (Suc 0)" by simp
    then show ?thesis using eq by (simp add: upt_rec)
  qed
  then show ?thesis using ranks by auto
qed

theorem composition_breaks_stride_bound_witness:
  "is_composition \<lparr>shape = Node [Leaf 2, Leaf 2], stride = Node [Leaf 1, Leaf 2]\<rparr>
                  \<lparr>shape = Node [Leaf 2], stride = Node [Leaf 2]\<rparr>
                  \<lparr>shape = Node [Leaf 2], stride = Node [Leaf 1]\<rparr>
   \<and> member_ranks \<lparr>shape = Node [Leaf 2], stride = Node [Leaf 1]\<rparr> = [0, 1]
   \<and> flatten (stride \<lparr>shape = Node [Leaf 2], stride = Node [Leaf 1]\<rparr>) ! 0
     < flatten (stride \<lparr>shape = Node [Leaf 2], stride = Node [Leaf 2]\<rparr>) ! 0"
proof -
  have comp: "is_composition \<lparr>shape = Node [Leaf 2, Leaf 2], stride = Node [Leaf 1, Leaf 2]\<rparr>
                  \<lparr>shape = Node [Leaf 2], stride = Node [Leaf 2]\<rparr>
                  \<lparr>shape = Node [Leaf 2], stride = Node [Leaf 1]\<rparr>"
    by code_simp
  from composition_breaks_stride_bound [OF comp, of 2 1] comp show ?thesis by simp
qed

subsection \<open>The mesh bridge and the world size\<close>

lemma collect_all_Inr: "\<forall>t \<in> set ts. f t = Inr t \<Longrightarrow> collect (map f ts) = Inr ts"
  by (induction ts) simp_all

lemma scale_stride_one: "scale_stride 1 t = Inr t"
proof (induction t)
  case (Leaf s)
  show ?case by simp
next
  case (Node ts)
  then have "collect (map (scale_stride 1) ts) = Inr ts"
    by (intro collect_all_Inr) simp
  then show ?case by simp
qed

text \<open>
  C9, as the spec has it, does not hold: no line of \<^verbatim>\<open>to_remapping_tensor\<close> compares
  \<^verbatim>\<open>world_size\<close> with a multiple of the element count. With four mesh values and
  \<^verbatim>\<open>world_size = 6\<close> the call returns a tensor.
\<close>

theorem to_remapping_tensor_accepts_non_multiple:
  "6 mod int (length [10, 20, 30, 40 :: int]) \<noteq> 0
   \<and> to_remapping_tensor \<lparr>shape = Node [Leaf 2, Leaf 2], stride = Node [Leaf 2, Leaf 1]\<rparr>
         [10, 20, 30, 40] 6
       = Inr \<lparr>dims = [1, 2, 2], vals = [10, 20, 30, 40]\<rparr>"
  by code_simp

text \<open>
  C9, amended. \<^verbatim>\<open>to_remapping_tensor\<close> uses \<^verbatim>\<open>world_size\<close> only in the test
  \<^verbatim>\<open>numel() != world_size\<close> and in the floor division \<^verbatim>\<open>world_size // numel()\<close>. For a mesh
  tensor that is not empty and a layout that passed construction, the result for
  \<^verbatim>\<open>world_size\<close> is the result for the largest multiple of the element count not above
  \<^verbatim>\<open>world_size\<close>; a \<^verbatim>\<open>world_size\<close> that is not a multiple is no cause of failure.
\<close>

theorem to_remapping_tensor_floor:
  assumes nonempty: "original_mesh_tensor \<noteq> []"
    and built: "new_layout (shape L) (stride L) = Inr L"
  shows "to_remapping_tensor L original_mesh_tensor world_size
       = to_remapping_tensor L original_mesh_tensor
           (int (length original_mesh_tensor)
              * (world_size div int (length original_mesh_tensor)))"
proof -
  define n where "n = int (length original_mesh_tensor)"
  define ws' where "ws' = n * (world_size div n)"
  have n: "0 < n" using nonempty by (simp add: n_def)
  then have q: "ws' div n = world_size div n" by (simp add: ws'_def)
  have goal: "to_remapping_tensor L original_mesh_tensor world_size
            = to_remapping_tensor L original_mesh_tensor ws'"
  proof (cases "world_size = n")
    case True
    then have "ws' = world_size" using n by (simp add: ws'_def)
    then show ?thesis by simp
  next
    case ws: False
    show ?thesis
    proof (cases "world_size div n = 1")
      case True
      then have "ws' = n" by (simp add: ws'_def)
      moreover have "new_layout (sizes L) (strides L) = Inr L"
        using built by (simp add: sizes_def strides_def)
      moreover have "n \<noteq> world_size" "n \<noteq> 0" using ws n by simp_all
      ultimately show ?thesis
        using True
        by (simp add: to_remapping_tensor_def Let_def scale_stride_one flip: n_def
            split: sum.splits)
    next
      case False
      then have "n \<noteq> ws'" using n by (simp add: ws'_def)
      moreover have "n \<noteq> world_size" "n \<noteq> 0" using ws n by simp_all
      ultimately show ?thesis
        using q by (simp add: to_remapping_tensor_def Let_def flip: n_def split: sum.splits)
    qed
  qed
  then show ?thesis by (simp add: ws'_def n_def)
qed

theorem to_remapping_tensor_floor_witness:
  "[10, 20, 30, 40 :: int] \<noteq> []
   \<and> new_layout (Node [Leaf 2, Leaf 2]) (Node [Leaf 2, Leaf 1])
       = Inr \<lparr>shape = Node [Leaf 2, Leaf 2], stride = Node [Leaf 2, Leaf 1]\<rparr>
   \<and> to_remapping_tensor \<lparr>shape = Node [Leaf 2, Leaf 2], stride = Node [Leaf 2, Leaf 1]\<rparr>
         [10, 20, 30, 40] 6
       = to_remapping_tensor \<lparr>shape = Node [Leaf 2, Leaf 2], stride = Node [Leaf 2, Leaf 1]\<rparr>
         [10, 20, 30, 40] 4"
proof -
  let ?L = "\<lparr>shape = Node [Leaf 2, Leaf 2], stride = Node [Leaf 2, Leaf 1]\<rparr>"
  have b: "new_layout (shape ?L) (stride ?L) = Inr ?L"
    by (simp add: new_layout_def)
  have "to_remapping_tensor ?L [10, 20, 30, 40] 6
      = to_remapping_tensor ?L [10, 20, 30, 40] (int (length [10, 20, 30, 40 :: int])
          * (6 div int (length [10, 20, 30, 40 :: int])))"
    by (rule to_remapping_tensor_floor [OF _ b]) simp
  then show ?thesis using b by simp
qed

subsection \<open>A repeated rank that the check lets through\<close>

text \<open>
  C10. A layout with a single flattened dimension of size \<open>n > 1\<close> and stride \<open>0\<close> passes
  \<^verbatim>\<open>check_non_overlap\<close>, although \<^verbatim>\<open>member_ranks\<close> lists rank \<open>0\<close> exactly \<open>n\<close> times.
\<close>

theorem zero_stride_passes_check:
  assumes "flatten (shape L) = [n]" and "flatten (stride L) = [0]" and "1 < n"
  shows "check_non_overlap L \<and> member_ranks L = replicate (nat n) 0"
proof
  show "check_non_overlap L"
    using assms by (simp add: check_non_overlap_def sizes_and_strides_def)
  have "member_ranks L = map (\<lambda>k. 0) [0..<nat n]"
    using assms
    by (simp add: member_ranks_def sizes_def strides_def range_py_def
        product_py_replicate0 comp_def dot_def del: product_py.simps)
  then show "member_ranks L = replicate (nat n) 0"
    by (simp add: map_replicate_const)
qed

theorem zero_stride_passes_check_witness:
  "check_non_overlap \<lparr>shape = Node [Leaf 3], stride = Node [Leaf 0]\<rparr>
   \<and> member_ranks \<lparr>shape = Node [Leaf 3], stride = Node [Leaf 0]\<rparr> = [0, 0, 0]"
  using zero_stride_passes_check [of "\<lparr>shape = Node [Leaf 3], stride = Node [Leaf 0]\<rparr>" 3]
  by (simp add: numeral_3_eq_3)

end
